theory Spec2Isabelle
  imports Main "HOL-Library.Log_Nat" "HOL-Library.AList"
begin

section \<open>JavaScript values\<close>

text \<open>
  The values that \<^verbatim>\<open>src/index.ts\<close> inspects: BSON documents returned by the driver
  (for \<^verbatim>\<open>getSchema\<close>) and JSON arguments (for \<^verbatim>\<open>convertToObjectIds\<close>).
  An object is the list of its own enumerable string-keyed properties in the order
  \<^verbatim>\<open>Object.entries\<close> returns them; instances of driver classes other than
  \<^verbatim>\<open>Date\<close> and \<^verbatim>\<open>ObjectId\<close> are objects of this kind too. The payload of a number
  is never inspected by the two functions beyond its truthiness, so an integer stands
  for it. \<open>JObjectId s\<close> is the result of \<^verbatim>\<open>new ObjectId(s)\<close>.
\<close>

datatype jsval =
    JUndefined
  | JNull
  | JBool bool
  | JNum int
  | JStr string
  | JDate int
  | JObjectId string
  | JArr "jsval list"
  | JObj "(string \<times> jsval) list"

datatype error = TypeError

text \<open>\<^verbatim>\<open>typeof value\<close>, \<^verbatim>\<open>Array.isArray(value)\<close> and the two \<^verbatim>\<open>instanceof\<close> tests.\<close>

fun typeof :: "jsval \<Rightarrow> string" where
  "typeof JUndefined = ''undefined''"
| "typeof (JBool b) = ''boolean''"
| "typeof (JNum n) = ''number''"
| "typeof (JStr s) = ''string''"
| "typeof JNull = ''object''"
| "typeof (JDate t) = ''object''"
| "typeof (JObjectId h) = ''object''"
| "typeof (JArr xs) = ''object''"
| "typeof (JObj kvs) = ''object''"

fun isArray :: "jsval \<Rightarrow> bool" where
  "isArray (JArr xs) = True"
| "isArray v = False"

fun instanceof_Date :: "jsval \<Rightarrow> bool" where
  "instanceof_Date (JDate t) = True"
| "instanceof_Date v = False"

fun instanceof_ObjectId :: "jsval \<Rightarrow> bool" where
  "instanceof_ObjectId (JObjectId h) = True"
| "instanceof_ObjectId v = False"

text \<open>Decimal rendering of a non-negative integer, as a template literal prints it
  (exact for every count below \<open>10\<^sup>2\<^sup>1\<close>).\<close>

fun decimal :: "nat \<Rightarrow> string" where
  "decimal n =
     (if n < 10 then [''0123456789'' ! n]
      else decimal (n div 10) @ [''0123456789'' ! (n mod 10)])"

declare decimal.simps [simp del]

text \<open>
  \<^verbatim>\<open>Object.entries(obj)\<close>: a \<^verbatim>\<open>TypeError\<close> on \<^verbatim>\<open>null\<close> and \<^verbatim>\<open>undefined\<close>, the index
  properties of a string or an array, nothing for a number, a boolean or a
  \<^verbatim>\<open>Date\<close>. (An \<^verbatim>\<open>ObjectId\<close> keeps its bytes under a symbol key in the driver versions
  that have no enumerable field for them; no theorem below depends on that case.)
\<close>

fun Object_entries :: "jsval \<Rightarrow> error + (string \<times> jsval) list" where
  "Object_entries JUndefined = Inl TypeError"
| "Object_entries JNull = Inl TypeError"
| "Object_entries (JObj kvs) = Inr kvs"
| "Object_entries (JArr xs) = Inr (zip (map decimal [0..<length xs]) xs)"
| "Object_entries (JStr s) = Inr (zip (map decimal [0..<length s]) (map (\<lambda>c. JStr [c]) s))"
| "Object_entries (JBool b) = Inr []"
| "Object_entries (JNum n) = Inr []"
| "Object_entries (JDate t) = Inr []"
| "Object_entries (JObjectId h) = Inr []"

text \<open>Reading an own property of an object (\<open>None\<close> when there is none).\<close>

fun own_property :: "jsval \<Rightarrow> string \<Rightarrow> jsval option" where
  "own_property (JObj kvs) k = map_of kvs k"
| "own_property v k = None"

section \<open>Double-precision arithmetic of the percentage\<close>

text \<open>
  \<^verbatim>\<open>Math.round((info.count / samples.length) * 100)\<close> is computed on IEEE 754 doubles.
  A non-negative double is kept as an exact fraction \<open>(a, b)\<close> of naturals, and
  \<open>to_double\<close> rounds a fraction to the nearest double (53 significant bits, ties to
  even). Counts and lengths are below \<open>2\<^sup>5\<^sup>3\<close>, so they are doubles themselves and
  neither overflow nor subnormal numbers arise.
\<close>

definition round_half_even :: "nat \<Rightarrow> nat \<Rightarrow> nat" where
  "round_half_even a b =
     (let q = a div b; r = a mod b
      in if 2 * r < b then q else if b < 2 * r then q + 1 else if even q then q else q + 1)"

definition scale2 :: "nat \<times> nat \<Rightarrow> int \<Rightarrow> nat \<times> nat" where
  "scale2 f s = (if 0 \<le> s then (fst f * 2 ^ nat s, snd f) else (fst f, snd f * 2 ^ nat (- s)))"

definition floor_log2 :: "nat \<times> nat \<Rightarrow> int" where
  "floor_log2 f =
     (let k = int (floorlog 2 (fst f)) - int (floorlog 2 (snd f)); g = scale2 f (- k)
      in if snd g \<le> fst g then k else k - 1)"

definition to_double :: "nat \<times> nat \<Rightarrow> nat \<times> nat" where
  "to_double f =
     (if fst f = 0 then (0, 1)
      else let s = 52 - floor_log2 f; g = scale2 f s
           in scale2 (round_half_even (fst g) (snd g), 1) (- s))"

text \<open>The number a fraction stands for.\<close>

definition frac_val :: "nat \<times> nat \<Rightarrow> real" where
  "frac_val f = real (fst f) / real (snd f)"

text \<open>\<^verbatim>\<open>Math.round\<close>: the nearest integer, a tie going up.\<close>

definition Math_round :: "nat \<times> nat \<Rightarrow> int" where
  "Math_round f = int ((2 * fst f + snd f) div (2 * snd f))"

definition percentage :: "nat \<Rightarrow> nat \<Rightarrow> int" where
  "percentage c n =
     Math_round (let d = to_double (c, n) in to_double (fst d * 100, snd d))"

section \<open>The getSchema handler\<close>

text \<open>One entry of \<^verbatim>\<open>fieldInfo\<close>: the \<^verbatim>\<open>Set\<close> of type tags in insertion order, the
  examples and the count.\<close>

record field_info =
  types :: "string list"
  examples :: "jsval list"
  count :: nat

text \<open>
  \<^verbatim>\<open>fieldInfo\<close> is an association list in the order its properties were created, that
  is, the order the paths were first seen. \<open>own_property_order\<close> below gives the order
  in which \<^verbatim>\<open>Object.entries(fieldInfo)\<close> lists them.
\<close>

type_synonym fieldInfo = "(string \<times> field_info) list"

text \<open>The names \<^verbatim>\<open>fieldInfo[fieldPath]\<close> finds on \<^verbatim>\<open>Object.prototype\<close> when
  \<^verbatim>\<open>fieldInfo\<close> has no own property of that name.\<close>

definition object_prototype_keys :: "string list" where
  "object_prototype_keys =
     [''constructor'', ''__defineGetter__'', ''__defineSetter__'', ''hasOwnProperty'',
      ''__lookupGetter__'', ''__lookupSetter__'', ''isPrototypeOf'',
      ''propertyIsEnumerable'', ''toString'', ''valueOf'', ''__proto__'',
      ''toLocaleString'']"

text \<open>The type tag of lines 531-535.\<close>

definition type_tag :: "jsval \<Rightarrow> string" where
  "type_tag value =
     (if isArray value then ''array''
      else if value = JNull then ''null''
      else if instanceof_Date value then ''date''
      else if instanceof_ObjectId value then ''ObjectId''
      else typeof value)"

text \<open>\<^verbatim>\<open>Set.prototype.add\<close> on the insertion-ordered set.\<close>

definition set_add :: "string list \<Rightarrow> string \<Rightarrow> string list" where
  "set_add s x = (if x \<in> set s then s else s @ [x])"

text \<open>Lines 529-542 on one record: count, type tag, example.\<close>

definition bump :: "field_info \<Rightarrow> jsval \<Rightarrow> field_info" where
  "bump info value =
     (let info1 = info\<lparr>count := count info + 1\<rparr>;
          info2 = info1\<lparr>types := set_add (types info1) (type_tag value)\<rparr>
      in if length (examples info2) < 3 \<and> value \<noteq> JNull
         then info2\<lparr>examples := examples info2 @ [value]\<rparr>
         else info2)"

text \<open>
  Lines 525-542 for one key. When \<^verbatim>\<open>fieldInfo\<close> has no own property \<^verbatim>\<open>fieldPath\<close> but
  \<^verbatim>\<open>Object.prototype\<close> has one, \<^verbatim>\<open>!fieldInfo[fieldPath]\<close> is false, no record is
  created, and \<^verbatim>\<open>fieldInfo[fieldPath].types.add\<close> reads \<^verbatim>\<open>add\<close> of \<^verbatim>\<open>undefined\<close>.
\<close>

definition observe :: "fieldInfo \<Rightarrow> string \<Rightarrow> jsval \<Rightarrow> error + fieldInfo" where
  "observe fieldInfo fieldPath value =
     (case map_of fieldInfo fieldPath of
        Some info \<Rightarrow> Inr (AList.update fieldPath (bump info value) fieldInfo)
      | None \<Rightarrow>
          if fieldPath \<in> set object_prototype_keys then Inl TypeError
          else Inr (AList.update fieldPath
                      (bump \<lparr>types = [], examples = [], count = 0\<rparr> value) fieldInfo))"

text \<open>\<^verbatim>\<open>prefix ? `${prefix}.${key}` : key\<close>\<close>

definition fieldPath_of :: "string \<Rightarrow> string \<Rightarrow> string" where
  "fieldPath_of prefix key = (if prefix \<noteq> [] then prefix @ ''.'' @ key else key)"

text \<open>
  The loop of \<^verbatim>\<open>analyzeObject\<close> over the entries of \<^verbatim>\<open>obj\<close> (lines 522-548); the
  recursive call \<^verbatim>\<open>analyzeObject(value, fieldPath)\<close> of line 546 is the loop over
  \<^verbatim>\<open>Object.entries(value)\<close>.
\<close>

function analyzeEntries :: "fieldInfo \<Rightarrow> (string \<times> jsval) list \<Rightarrow> string \<Rightarrow> error + fieldInfo" where
  "analyzeEntries fieldInfo [] prefix = Inr fieldInfo"
| "analyzeEntries fieldInfo ((key, value) # rest) prefix =
     (case observe fieldInfo (fieldPath_of prefix key) value of
        Inl e \<Rightarrow> Inl e
      | Inr fi1 \<Rightarrow>
          (case (if type_tag value = ''object'' \<and> value \<noteq> JNull
                 then (case Object_entries value of
                         Inl e \<Rightarrow> Inl e
                       | Inr kvs \<Rightarrow> analyzeEntries fi1 kvs (fieldPath_of prefix key))
                 else Inr fi1) of
             Inl e \<Rightarrow> Inl e
           | Inr fi2 \<Rightarrow> analyzeEntries fi2 rest prefix))"
  by pat_completeness auto
termination
proof (relation "measure (\<lambda>(fi, kvs, prefix). size_list (size_prod (\<lambda>_. 0) size) kvs)")
  fix fieldInfo :: fieldInfo and key :: string and "value" :: jsval
    and rest :: "(string \<times> jsval) list" and prefix :: string
    and fi1 :: fieldInfo and kvs :: "(string \<times> jsval) list"
  assume "type_tag value = ''object'' \<and> value \<noteq> JNull"
    and "Object_entries value = Inr kvs"
  then have "size_list (size_prod (\<lambda>_. 0) size) kvs < size value"
    by (cases "value") (auto simp: type_tag_def)
  then show "((fi1, kvs, fieldPath_of prefix key), fieldInfo, (key, value) # rest, prefix)
      \<in> measure (\<lambda>(fi, kvs, prefix). size_list (size_prod (\<lambda>_. 0) size) kvs)"
    by simp
qed auto

definition analyzeObject :: "fieldInfo \<Rightarrow> jsval \<Rightarrow> string \<Rightarrow> error + fieldInfo" where
  "analyzeObject fieldInfo obj prefix =
     (case Object_entries obj of
        Inl e \<Rightarrow> Inl e
      | Inr kvs \<Rightarrow> analyzeEntries fieldInfo kvs prefix)"

text \<open>\<^verbatim>\<open>samples.forEach(doc => analyzeObject(doc))\<close>: an exception leaves the loop.\<close>

fun forEach_analyzeObject :: "fieldInfo \<Rightarrow> jsval list \<Rightarrow> error + fieldInfo" where
  "forEach_analyzeObject fieldInfo [] = Inr fieldInfo"
| "forEach_analyzeObject fieldInfo (doc # docs) =
     (case analyzeObject fieldInfo doc [] of
        Inl e \<Rightarrow> Inl e
      | Inr fi1 \<Rightarrow> forEach_analyzeObject fi1 docs)"

text \<open>
  The order of the own properties of an ordinary object, as \<^verbatim>\<open>Object.entries\<close> and
  \<^verbatim>\<open>Object.keys\<close> list them: the keys that are array indices (canonical decimal
  numerals below \<open>2\<^sup>3\<^sup>2 - 1\<close>) in ascending numeric order, then the other keys in
  the order of their creation.
\<close>

definition index_value :: "string \<Rightarrow> nat" where
  "index_value s = foldl (\<lambda>n c. 10 * n + (of_char c - 48)) 0 s"

definition is_array_index :: "string \<Rightarrow> bool" where
  "is_array_index s =
     (s \<noteq> [] \<and> list_all (\<lambda>c. c \<in> set ''0123456789'') s \<and>
      (hd s \<noteq> CHR ''0'' \<or> s = ''0'') \<and> index_value s < 4294967295)"

definition own_property_order :: "(string \<times> 'a) list \<Rightarrow> (string \<times> 'a) list" where
  "own_property_order kvs =
     sort_key (\<lambda>kv. index_value (fst kv)) (filter (\<lambda>kv. is_array_index (fst kv)) kvs)
     @ filter (\<lambda>kv. \<not> is_array_index (fst kv)) kvs"

text \<open>The arguments \<^verbatim>\<open>GetSchemaToolSchema\<close> parses.\<close>

record params =
  collection :: string
  sampleSize :: int

text \<open>The public view of one record (lines 556-561).\<close>

definition field_view :: "nat \<Rightarrow> field_info \<Rightarrow> jsval" where
  "field_view n info =
     JObj [(''types'', JArr (map JStr (types info))),
           (''examples'', JArr (examples info)),
           (''frequency'', JStr (decimal (count info) @ ''/'' @ decimal n)),
           (''percentage'', JNum (percentage (count info) n))]"

text \<open>
  The handler from line 507 on, given the array \<^verbatim>\<open>samples\<close> the driver returned for
  \<^verbatim>\<open>collection.find({}).limit(params.sampleSize).toArray()\<close>. The result is the object
  handed to \<^verbatim>\<open>JSON.stringify\<close>; an exception leaves the handler. \<^verbatim>\<open>schema\<close> receives its
  properties in the order of \<^verbatim>\<open>Object.entries(fieldInfo)\<close> (line 555), which is its own
  property order too.
\<close>

definition getSchema :: "params \<Rightarrow> jsval list \<Rightarrow> error + jsval" where
  "getSchema ps samples =
     (if length samples = 0
      then Inr (JObj [(''message'', JStr ''No documents found in collection''),
                      (''fields'', JObj [])])
      else case forEach_analyzeObject [] samples of
             Inl e \<Rightarrow> Inl e
           | Inr fieldInfo \<Rightarrow>
               (let schema = map (\<lambda>(field, info). (field, field_view (length samples) info))
                                 (own_property_order fieldInfo)
                in Inr (JObj [(''collection'', JStr (collection ps)),
                              (''sampleSize'', JNum (int (length samples))),
                              (''fields'', JObj schema),
                              (''summary'',
                                 JObj [(''totalFields'', JNum (int (length schema))),
                                       (''totalDocuments'', JNum (int (length samples)))])])))"

section \<open>The traversal as a sequence of observations\<close>

text \<open>
  The pairs \<^verbatim>\<open>(fieldPath, value)\<close> for which the body of the loop of \<^verbatim>\<open>analyzeObject\<close>
  runs, in the order it runs for them: each entry, followed by the entries of its
  value when line 545 recurses into it.
\<close>

function visits :: "(string \<times> jsval) list \<Rightarrow> string \<Rightarrow> (string \<times> jsval) list" where
  "visits [] prefix = []"
| "visits ((key, value) # rest) prefix =
     (fieldPath_of prefix key, value) #
     (if type_tag value = ''object'' \<and> value \<noteq> JNull
      then (case Object_entries value of
              Inl e \<Rightarrow> []
            | Inr kvs \<Rightarrow> visits kvs (fieldPath_of prefix key))
      else [])
     @ visits rest prefix"
  by pat_completeness auto
termination
proof (relation "measure (\<lambda>(kvs, prefix). size_list (size_prod (\<lambda>_. 0) size) kvs)")
  fix key :: string and "value" :: jsval and rest :: "(string \<times> jsval) list"
    and prefix :: string and kvs :: "(string \<times> jsval) list"
  assume "type_tag value = ''object'' \<and> value \<noteq> JNull"
    and "Object_entries value = Inr kvs"
  then have "size_list (size_prod (\<lambda>_. 0) size) kvs < size value"
    by (cases "value") (auto simp: type_tag_def)
  then show "((kvs, fieldPath_of prefix key), (key, value) # rest, prefix)
      \<in> measure (\<lambda>(kvs, prefix). size_list (size_prod (\<lambda>_. 0) size) kvs)"
    by simp
qed auto

definition doc_visits :: "jsval \<Rightarrow> (string \<times> jsval) list" where
  "doc_visits doc = (case Object_entries doc of Inl e \<Rightarrow> [] | Inr kvs \<Rightarrow> visits kvs [])"

definition sample_visits :: "jsval list \<Rightarrow> (string \<times> jsval) list" where
  "sample_visits samples = concat (map doc_visits samples)"

text \<open>The values observed at one path, in order.\<close>

definition values_at :: "string \<Rightarrow> (string \<times> jsval) list \<Rightarrow> jsval list" where
  "values_at p vs = map snd (filter (\<lambda>pv. fst pv = p) vs)"

text \<open>Lines 525-542 run for a sequence of observations, stopping at an exception.\<close>

fun observe_all :: "fieldInfo \<Rightarrow> (string \<times> jsval) list \<Rightarrow> error + fieldInfo" where
  "observe_all fieldInfo [] = Inr fieldInfo"
| "observe_all fieldInfo (pv # vs) =
     (case observe fieldInfo (fst pv) (snd pv) of
        Inl e \<Rightarrow> Inl e
      | Inr fi1 \<Rightarrow> observe_all fi1 vs)"

text \<open>The fields of a report: the entries of its \<^verbatim>\<open>fields\<close> object.\<close>

definition report_fields :: "jsval \<Rightarrow> (string \<times> jsval) list" where
  "report_fields report =
     (case own_property report ''fields'' of Some (JObj kvs) \<Rightarrow> kvs | _ \<Rightarrow> [])"

text \<open>A direct recursive call of \<^verbatim>\<open>analyzeObject\<close> (line 546): from the call on
  \<open>(obj, prefix)\<close> to the call on \<open>(value, fieldPath)\<close>.\<close>

definition analyzeObject_calls :: "jsval \<times> string \<Rightarrow> jsval \<times> string \<Rightarrow> bool" where
  "analyzeObject_calls caller callee =
     (case Object_entries (fst caller) of
        Inl e \<Rightarrow> False
      | Inr kvs \<Rightarrow>
          list_ex (\<lambda>(key, value).
                     type_tag value = ''object'' \<and> value \<noteq> JNull \<and>
                     callee = (value, fieldPath_of (snd caller) key)) kvs)"

text \<open>The record line 526 creates, and the record a path has before an observation.\<close>

definition empty_info :: field_info where
  "empty_info = \<lparr>types = [], examples = [], count = 0\<rparr>"

definition info_at :: "fieldInfo \<Rightarrow> string \<Rightarrow> field_info" where
  "info_at fi p = (case map_of fi p of None \<Rightarrow> empty_info | Some i \<Rightarrow> i)"

section \<open>The specification's words\<close>

text \<open>
  The type tag as section 4.1 step 4 of the specification gives it, one case per kind
  of value: sequence, null marker, date, native identifier, and otherwise the
  primitive kind.
\<close>

fun spec_type_tag :: "jsval \<Rightarrow> string" where
  "spec_type_tag (JArr xs) = ''array''"
| "spec_type_tag JNull = ''null''"
| "spec_type_tag (JDate t) = ''date''"
| "spec_type_tag (JObjectId h) = ''ObjectId''"
| "spec_type_tag (JStr s) = ''string''"
| "spec_type_tag (JNum n) = ''number''"
| "spec_type_tag (JBool b) = ''boolean''"
| "spec_type_tag (JObj kvs) = ''object''"
| "spec_type_tag JUndefined = ''undefined''"

text \<open>
  The field paths of sections 3 and 4.1 of the specification: a field path is the
  dotted identifier of a sequence of keys, and the paths of a document are the key
  sequences that lead to a key of the document or of a nested object-typed value.
  No key sequence leads through an array.
\<close>

fun dotted :: "string list \<Rightarrow> string" where
  "dotted [] = []"
| "dotted [key] = key"
| "dotted (key # keys) = key @ ''.'' @ dotted keys"

fun key_paths :: "(string \<times> jsval) list \<Rightarrow> string list list" where
  "key_paths [] = []"
| "key_paths ((key, value) # rest) =
     [key]
     # (case value of JObj kvs \<Rightarrow> map ((#) key) (key_paths kvs) | _ \<Rightarrow> [])
     @ key_paths rest"

definition spec_field_paths :: "(string \<times> jsval) list \<Rightarrow> string set" where
  "spec_field_paths kvs = dotted ` set (key_paths kvs)"

section \<open>Identifier coercion\<close>

text \<open>Truthiness, for \<^verbatim>\<open>!obj\<close> (\<^verbatim>\<open>NaN\<close> is not among the numbers modelled).\<close>

fun truthy :: "jsval \<Rightarrow> bool" where
  "truthy JUndefined = False"
| "truthy JNull = False"
| "truthy (JBool b) = b"
| "truthy (JNum n) = (n \<noteq> 0)"
| "truthy (JStr s) = (s \<noteq> [])"
| "truthy v = True"

text \<open>\<^verbatim>\<open>String.prototype.endsWith\<close> and the test on the key of line 131.\<close>

definition endsWith :: "string \<Rightarrow> string \<Rightarrow> bool" where
  "endsWith s suffix =
     (length suffix \<le> length s \<and> drop (length s - length suffix) s = suffix)"

definition id_key :: "string \<Rightarrow> bool" where
  "id_key key =
     (key = ''_id'' \<or> endsWith key ''_id'' \<or> endsWith key ''Id'' \<or> endsWith key ''_ids''
      \<or> endsWith key ''Ids'')"

text \<open>The arrow function of lines 135 and 139:
  \<^verbatim>\<open>v => typeof v === 'string' && ObjectId.isValid(v) ? new ObjectId(v) : v\<close>.\<close>

fun string_to_ObjectId :: "(string \<Rightarrow> bool) \<Rightarrow> jsval \<Rightarrow> jsval" where
  "string_to_ObjectId isValid (JStr s) = (if isValid s then JObjectId s else JStr s)"
| "string_to_ObjectId isValid v = v"

text \<open>
  The own properties of \<^verbatim>\<open>converted\<close> after the assignments \<^verbatim>\<open>converted[key] = ...\<close>
  in the order of \<^verbatim>\<open>Object.entries(obj)\<close>: an assignment to the key \<^verbatim>\<open>__proto__\<close> goes to
  the setter of \<^verbatim>\<open>Object.prototype\<close> and creates no own property.
\<close>

definition converted_entries :: "(string \<times> jsval) list \<Rightarrow> (string \<times> jsval) list" where
  "converted_entries kvs = filter (\<lambda>kv. fst kv \<noteq> ''__proto__'') kvs"

text \<open>
  \<^verbatim>\<open>convertToObjectIds\<close> (lines 117-153), one equation for each kind of value the chain
  of tests tells apart. \<^verbatim>\<open>ObjectId.isValid\<close> belongs to the driver and is a parameter.
  A falsy value (line 118) is returned as it is: for a string that is the empty string.
  A \<^verbatim>\<open>Date\<close> or an \<^verbatim>\<open>ObjectId\<close> is an object that is not an array, so line 128 rebuilds
  it from its enumerable entries, of which it has none.
\<close>

fun convertToObjectIds :: "(string \<Rightarrow> bool) \<Rightarrow> jsval \<Rightarrow> jsval" where
  "convertToObjectIds isValid (JStr s) =
     (if s \<noteq> [] \<and> isValid s \<and> length s = 24 then JObjectId s else JStr s)"
| "convertToObjectIds isValid (JArr items) = JArr (map (convertToObjectIds isValid) items)"
| "convertToObjectIds isValid (JObj kvs) =
     JObj (converted_entries (map (\<lambda>(key, value).
        (key,
         if id_key key then
           (case value of
              JStr s \<Rightarrow>
                if isValid s then JObjectId s else convertToObjectIds isValid value
            | JArr vs \<Rightarrow> JArr (map (string_to_ObjectId isValid) vs)
            | JObj vkvs \<Rightarrow>
                (case map_of vkvs ''$in'' of
                   Some w \<Rightarrow>
                     JObj [(''$in'',
                            case w of
                              JArr ws \<Rightarrow> JArr (map (string_to_ObjectId isValid) ws)
                            | _ \<Rightarrow> w)]
                 | None \<Rightarrow> convertToObjectIds isValid value)
            | _ \<Rightarrow> convertToObjectIds isValid value)
         else convertToObjectIds isValid value)) kvs))"
| "convertToObjectIds isValid (JDate t) = JObj []"
| "convertToObjectIds isValid (JObjectId h) = JObj []"
| "convertToObjectIds isValid v = v"

section \<open>Evaluation\<close>

lemmas double_simps =
  percentage_def Math_round_def to_double_def floor_log2_def scale2_def
  round_half_even_def Let_def compute_floorlog

lemmas analyze_simps =
  getSchema_def analyzeObject_def observe_def bump_def set_add_def type_tag_def
  fieldPath_of_def object_prototype_keys_def field_view_def own_property_order_def
  is_array_index_def

lemma percentage_2_2: "percentage 2 2 = 100"
  by (simp add: double_simps)

lemma percentage_1_2: "percentage 1 2 = 50"
  by (simp add: double_simps)

lemma percentage_Suc [simp]:
  "percentage (Suc (Suc 0)) (Suc (Suc 0)) = 100"
  "percentage (Suc 0) (Suc (Suc 0)) = 50"
  using percentage_2_2 percentage_1_2 by (simp_all add: numeral_2_eq_2)

lemma decimal_digit: "n < 10 \<Longrightarrow> decimal n = [''0123456789'' ! n]"
  by (simp add: decimal.simps [of n])

section \<open>The traversal is a run over its observations\<close>

lemma error_TypeError [simp]: "(e::error) = TypeError"
  by (cases e)

lemma object_tag: "type_tag v = ''object'' \<Longrightarrow> \<exists>kvs. v = JObj kvs"
  by (cases v) (auto simp: type_tag_def)

lemma observe_all_append:
  "observe_all fi (xs @ ys) =
     (case observe_all fi xs of Inl e \<Rightarrow> Inl e | Inr fi1 \<Rightarrow> observe_all fi1 ys)"
  by (induction xs arbitrary: fi) (auto split: sum.splits)

lemma analyzeEntries_visits:
  "analyzeEntries fi kvs prefix = observe_all fi (visits kvs prefix)"
proof (induction fi kvs prefix rule: analyzeEntries.induct)
  case (1 fieldInfo prefix)
  then show ?case by simp
next
  case (2 fieldInfo key "value" rest prefix)
  show ?case
  proof (cases "observe fieldInfo (fieldPath_of prefix key) value")
    case (Inl e)
    then show ?thesis by simp
  next
    case (Inr fi1)
    show ?thesis
    proof (cases "type_tag value = ''object'' \<and> value \<noteq> JNull")
      case True
      then obtain kvs where v: "value = JObj kvs" using object_tag by blast
      have e: "Object_entries value = Inr kvs" using v by simp
      show ?thesis
        using "2.IH"(1) [OF Inr True e] "2.IH"(2) [OF Inr] Inr True e
        by (simp add: observe_all_append split: sum.splits)
    next
      case False
      then show ?thesis
        using "2.IH"(2) [OF Inr] Inr by (auto split: sum.splits)
    qed
  qed
qed

lemma forEach_visits:
  "forEach_analyzeObject fi samples =
     (if \<exists>d \<in> set samples. Object_entries d = Inl TypeError then Inl TypeError
      else observe_all fi (sample_visits samples))"
proof (induction samples arbitrary: fi)
  case Nil
  then show ?case by (simp add: sample_visits_def)
next
  case (Cons d ds)
  show ?case
  proof (cases "Object_entries d")
    case (Inl e)
    then show ?thesis by (simp add: analyzeObject_def)
  next
    case (Inr kvs)
    then show ?thesis
      using Cons.IH
      by (cases "observe_all fi (visits kvs [])")
         (auto simp: analyzeObject_def analyzeEntries_visits sample_visits_def doc_visits_def
               observe_all_append split: sum.splits)
  qed
qed

lemma observe_map_of:
  "observe fi q v = Inr fi1 \<Longrightarrow> map_of fi1 = (map_of fi)(q \<mapsto> bump (info_at fi q) v)"
  by (auto simp: observe_def info_at_def empty_info_def update_conv'
           split: option.splits if_splits)

lemma observe_all_map_of:
  "observe_all fi vs = Inr fi1 \<Longrightarrow>
   map_of fi1 p =
     (if values_at p vs = [] then map_of fi p
      else Some (foldl bump (info_at fi p) (values_at p vs)))"
proof (induction vs arbitrary: fi)
  case Nil
  then show ?case by (simp add: values_at_def)
next
  case (Cons pv vs)
  from Cons.prems obtain fi2 where
    o: "observe fi (fst pv) (snd pv) = Inr fi2" and r: "observe_all fi2 vs = Inr fi1"
    by (auto split: sum.splits)
  have m: "map_of fi2 = (map_of fi)(fst pv \<mapsto> bump (info_at fi (fst pv)) (snd pv))"
    using observe_map_of [OF o] .
  show ?case
    using Cons.IH [OF r] m
    by (auto simp: values_at_def info_at_def)
qed

lemma count_bump [simp]: "count (bump i v) = Suc (count i)"
  by (simp add: bump_def Let_def)

lemma types_bump [simp]: "types (bump i v) = set_add (types i) (type_tag v)"
  by (simp add: bump_def Let_def)

lemma examples_bump [simp]:
  "examples (bump i v) =
     (if length (examples i) < 3 \<and> v \<noteq> JNull then examples i @ [v] else examples i)"
  by (simp add: bump_def Let_def)

lemma set_set_add [simp]: "set (set_add s x) = insert x (set s)"
  by (auto simp: set_add_def)

lemma count_foldl_bump: "count (foldl bump i vs) = count i + length vs"
  by (induction vs arbitrary: i) auto

lemma types_foldl_bump: "set (types (foldl bump i vs)) = set (types i) \<union> type_tag ` set vs"
  by (induction vs arbitrary: i) auto



lemma observe_all_empty:
  assumes "observe_all [] vs = Inr fi"
  shows "map_of fi p =
     (if values_at p vs = [] then None else Some (foldl bump empty_info (values_at p vs)))"
  using observe_all_map_of [OF assms, of p] by (simp add: info_at_def)

lemma values_at_Nil_iff: "values_at p vs = [] \<longleftrightarrow> p \<notin> fst ` set vs"
  by (induction vs) (auto simp: values_at_def)

lemma observe_all_keys:
  assumes "observe_all [] vs = Inr fi"
  shows "fst ` set fi = fst ` set vs"
proof -
  have "dom (map_of fi) = fst ` set vs"
    using observe_all_empty [OF assms] by (auto simp: dom_def values_at_Nil_iff)
  then show ?thesis by (simp add: dom_map_of_conv_image_fst)
qed

lemma observe_distinct:
  "observe fi q v = Inr fi1 \<Longrightarrow> distinct (map fst fi) \<Longrightarrow> distinct (map fst fi1)"
  by (auto simp: observe_def distinct_update split: option.splits if_splits)

lemma observe_all_distinct:
  "observe_all fi vs = Inr fi1 \<Longrightarrow> distinct (map fst fi) \<Longrightarrow> distinct (map fst fi1)"
  by (induction vs arbitrary: fi) (auto split: sum.splits dest: observe_distinct)

lemma observe_all_entry:
  assumes "observe_all [] vs = Inr fi" and "(p, info) \<in> set fi"
  shows "values_at p vs \<noteq> [] \<and> info = foldl bump empty_info (values_at p vs)"
proof -
  have "distinct (map fst fi)" using observe_all_distinct [OF assms(1)] by simp
  then have "map_of fi p = Some info" using assms(2) by simp
  then show ?thesis using observe_all_empty [OF assms(1), of p] by (auto split: if_splits)
qed

lemma tag_JObj [simp]: "type_tag (JObj kvs) = ''object''"
  by (simp add: type_tag_def)

lemma visits_object:
  "visits ((key, JObj kvs') # rest) prefix =
     (fieldPath_of prefix key, JObj kvs') # visits kvs' (fieldPath_of prefix key)
     @ visits rest prefix"
  by simp

lemma visits_leaf:
  "type_tag value \<noteq> ''object'' \<Longrightarrow>
   visits ((key, value) # rest) prefix = (fieldPath_of prefix key, value) # visits rest prefix"
  by simp

lemma visits_cases [case_names Nil object leaf]:
  assumes "\<And>prefix. P [] prefix"
    and "\<And>key kvs' rest prefix.
           P kvs' (fieldPath_of prefix key) \<Longrightarrow> P rest prefix \<Longrightarrow>
           P ((key, JObj kvs') # rest) prefix"
    and "\<And>key value rest prefix.
           type_tag value \<noteq> ''object'' \<Longrightarrow> P rest prefix \<Longrightarrow>
           P ((key, value) # rest) prefix"
  shows "P kvs prefix"
proof (induction kvs prefix rule: visits.induct)
  case (1 prefix)
  show ?case by (rule assms(1))
next
  case (2 key "value" rest prefix)
  show ?case
  proof (cases "type_tag value = ''object''")
    case True
    then obtain kvs' where v: "value = JObj kvs'" using object_tag by blast
    have "P kvs' (fieldPath_of prefix key)"
      using "2.IH"(1) [of kvs'] v by simp
    then show ?thesis using assms(2) "2.IH"(2) v by simp
  next
    case False
    then show ?thesis using assms(3) "2.IH"(2) by simp
  qed
qed

declare visits.simps(2) [simp del]

lemma visits_key:
  "(key, value) \<in> set kvs \<Longrightarrow> (fieldPath_of prefix key, value) \<in> set (visits kvs prefix)"
  by (induction kvs prefix rule: visits_cases) (auto simp: visits_object visits_leaf)

lemma visits_nested:
  "(key, JObj kvs') \<in> set kvs \<Longrightarrow> pv \<in> set (visits kvs' (fieldPath_of prefix key)) \<Longrightarrow>
   pv \<in> set (visits kvs prefix)"
  by (induction kvs prefix rule: visits_cases) (auto simp: visits_object visits_leaf)

section \<open>Bounds on the percentage\<close>

lemma round_half_even_le:
  assumes "0 < b" and "a \<le> z * b"
  shows "round_half_even a b \<le> z"
proof (cases "a div b < z")
  case True
  then show ?thesis by (auto simp: round_half_even_def Let_def)
next
  case False
  have "a div b \<le> z" using assms by (metis div_le_mono div_mult_self_is_m)
  with False have q: "a div b = z" by simp
  have "a = z * b + a mod b" using q by (metis div_mult_mod_eq mult.commute)
  with assms(2) have "a mod b = 0" by simp
  with q assms(1) show ?thesis by (simp add: round_half_even_def Let_def)
qed

lemma floorlog_two_power: "floorlog 2 (2 ^ s) = Suc s"
  using floorlog_power [of 1 2 s] by (simp add: floorlog_def)

lemma floor_log2_le:
  "floor_log2 f \<le> int (floorlog 2 (fst f)) - int (floorlog 2 (snd f))"
  by (simp add: floor_log2_def Let_def)

lemma to_double_unit:
  assumes "0 < fst f" and "fst f \<le> snd f"
  shows "\<exists>m s. to_double f = (m, 2 ^ s) \<and> m \<le> 2 ^ s"
proof -
  define S where "S = 52 - floor_log2 f"
  have "floorlog 2 (fst f) \<le> floorlog 2 (snd f)" using assms(2) by (rule floorlog_mono)
  then have "floor_log2 f \<le> 0" using floor_log2_le [of f] by linarith
  then have S: "0 < S" by (simp add: S_def)
  define m where "m = round_half_even (fst f * 2 ^ nat S) (snd f)"
  have "m \<le> 2 ^ nat S"
    unfolding m_def using assms by (intro round_half_even_le) auto
  moreover have "to_double f = (m, 2 ^ nat S)"
  proof -
    have "to_double f =
        scale2 (round_half_even (fst (scale2 f S)) (snd (scale2 f S)), 1) (- S)"
      using assms(1) by (simp add: to_double_def Let_def S_def)
    also have "scale2 f S = (fst f * 2 ^ nat S, snd f)"
      using S by (simp add: scale2_def)
    finally show ?thesis using S by (simp add: scale2_def m_def)
  qed
  ultimately show ?thesis by blast
qed

lemma to_double_times100:
  assumes "m \<le> 2 ^ s"
  shows "\<exists>m2 t. to_double (m * 100, 2 ^ s) = (m2, 2 ^ t) \<and> m2 \<le> 100 * 2 ^ t"
proof (cases "m = 0")
  case True
  have "to_double (m * 100, 2 ^ s) = (0, 2 ^ 0) \<and> (0::nat) \<le> 100 * 2 ^ 0"
    using True by (simp add: to_double_def)
  then show ?thesis by blast
next
  case False
  define f where "f = (m * 100, (2::nat) ^ s)"
  define S where "S = 52 - floor_log2 f"
  have "m * 100 < 2 ^ (s + 7)"
  proof -
    have "m * 100 \<le> 2 ^ s * 100" using assms by simp
    also have "\<dots> < 2 ^ s * 2 ^ 7" by simp
    finally show ?thesis by (simp add: power_add)
  qed
  then have "floorlog 2 (m * 100) \<le> s + 7" by (simp add: floorlog_le_iff)
  then have "floor_log2 f \<le> 6"
    using floor_log2_le [of f] by (simp add: f_def floorlog_two_power)
  then have S: "0 < S" by (simp add: S_def)
  define m2 where "m2 = round_half_even (m * 100 * 2 ^ nat S) (2 ^ s)"
  have "m2 \<le> 100 * 2 ^ nat S"
    unfolding m2_def using assms by (intro round_half_even_le) auto
  moreover have "to_double f = (m2, 2 ^ nat S)"
  proof -
    have "fst f \<noteq> 0" using False by (simp add: f_def)
    then have "to_double f =
        scale2 (round_half_even (fst (scale2 f S)) (snd (scale2 f S)), 1) (- S)"
      by (simp add: to_double_def Let_def S_def)
    also have "scale2 f S = (m * 100 * 2 ^ nat S, 2 ^ s)"
      using S by (simp add: scale2_def f_def)
    finally show ?thesis using S by (simp add: scale2_def m2_def)
  qed
  ultimately show ?thesis unfolding f_def by blast
qed

lemma Math_round_le:
  assumes "m \<le> 100 * 2 ^ t"
  shows "Math_round (m, 2 ^ t) \<le> 100"
proof -
  have "0 < (2::nat) ^ t" by simp
  then have "2 * m + 2 ^ t < 101 * (2 * 2 ^ t)" using assms by linarith
  then have "(2 * m + 2 ^ t) div (2 * 2 ^ t) < 101"
    by (simp add: less_mult_imp_div_less)
  then show ?thesis by (simp add: Math_round_def)
qed

lemma percentage_le_100:
  assumes "0 < c" and "c \<le> n"
  shows "percentage c n \<le> 100"
proof -
  obtain m s where d: "to_double (c, n) = (m, 2 ^ s)" and m: "m \<le> 2 ^ s"
    using to_double_unit [of "(c, n)"] assms by auto
  obtain m2 t where d2: "to_double (m * 100, 2 ^ s) = (m2, 2 ^ t)" and m2: "m2 \<le> 100 * 2 ^ t"
    using to_double_times100 [OF m] by blast
  show ?thesis using Math_round_le [OF m2] by (simp add: percentage_def d d2)
qed

lemma percentage_nonneg: "0 \<le> percentage c n"
  by (simp add: percentage_def Math_round_def)

text \<open>
  The rounding is that of the doubles: \<^verbatim>\<open>(23 / 40) * 100\<close> is \<^verbatim>\<open>57.49999999999999\<close>, and
  \<^verbatim>\<open>Math.round\<close> gives 57, though 23 of 40 is 57.5 percent.
\<close>

lemma percentage_23_40: "percentage 23 40 = 57"
  by (simp add: double_simps)

lemma frac_val_scale2:
  "0 < snd f \<Longrightarrow> frac_val (scale2 f s) = frac_val f * 2 powi s"
  by (auto simp: frac_val_def scale2_def power_int_def field_simps)

lemma snd_scale2: "0 < snd f \<Longrightarrow> 0 < snd (scale2 f s)"
  by (simp add: scale2_def)

lemma floor_log2_lower:
  assumes "0 < fst f" and "0 < snd f"
  shows "2 powi (floor_log2 f) \<le> frac_val f"
proof -
  define k where "k = int (floorlog 2 (fst f)) - int (floorlog 2 (snd f))"
  define g where "g = scale2 f (- k)"
  have g: "frac_val g = frac_val f * 2 powi (- k)" "0 < snd g"
    using assms by (simp_all add: g_def frac_val_scale2 snd_scale2)
  show ?thesis
  proof (cases "snd g \<le> fst g")
    case True
    then have "1 \<le> frac_val g" using g(2) by (simp add: frac_val_def)
    then have "1 \<le> frac_val f * 2 powi (- k)" using g(1) by simp
    then have "2 powi k \<le> frac_val f"
      by (simp add: power_int_minus field_simps)
    moreover have "floor_log2 f = k"
      using True by (simp add: floor_log2_def Let_def k_def [symmetric] g_def [symmetric])
    ultimately show ?thesis by simp
  next
    case False
    then have e: "floor_log2 f = k - 1"
      by (simp add: floor_log2_def Let_def k_def [symmetric] g_def [symmetric])
    let ?la = "floorlog 2 (fst f)" and ?lb = "floorlog 2 (snd f)"
    have a: "2 ^ (?la - 1) \<le> fst f" and b: "snd f < 2 ^ ?lb"
      using floorlog_bounds [of "fst f" 2] floorlog_bounds [of "snd f" 2] assms by simp_all
    have la: "0 < ?la" using assms(1) by (simp add: floorlog_def)
    have "(2::real) powi (k - 1) = 2 ^ (?la - 1) / 2 ^ ?lb"
    proof -
      have "k - 1 = int (?la - 1) - int ?lb" using la by (simp add: k_def)
      moreover have "(2::real) powi (int (?la - 1) - int ?lb)
          = 2 powi int (?la - 1) / 2 powi int ?lb"
        by (rule power_int_diff) simp
      ultimately show ?thesis by (simp only: power_int_of_nat)
    qed
    also have "\<dots> \<le> real (fst f) / 2 ^ ?lb"
    proof -
      have "(2::real) ^ (?la - 1) \<le> real (fst f)"
        using of_nat_mono [OF a, where 'a = real] by simp
      then show ?thesis by (simp add: divide_right_mono)
    qed
    also have "\<dots> \<le> real (fst f) / real (snd f)"
    proof -
      have "real (snd f) \<le> 2 ^ ?lb"
        using of_nat_mono [OF less_imp_le [OF b], where 'a = real] by simp
      then show ?thesis using assms by (simp add: frac_le)
    qed
    finally show ?thesis using e by (simp add: frac_val_def)
  qed
qed

lemma round_half_even_near:
  assumes "0 < b"
  shows "\<bar>real (round_half_even a b) - real a / real b\<bar> \<le> 1 / 2"
proof -
  define q r where "q = a div b" and "r = a mod b"
  have a: "real a = real q * real b + real r"
    unfolding q_def r_def by (metis div_mult_mod_eq of_nat_add of_nat_mult)
  have r: "r < b" using assms by (simp add: r_def)
  have d: "real a / real b = real q + real r / real b"
    using assms by (simp add: a field_simps)
  consider (down) "2 * r < b" | (up) "b < 2 * r" | (tie) "b = 2 * r" by linarith
  then show ?thesis
  proof cases
    case down
    then have "round_half_even a b = q"
      by (simp add: round_half_even_def Let_def q_def r_def)
    moreover have "real r / real b \<le> 1 / 2" using down assms by (simp add: field_simps)
    ultimately show ?thesis using d by simp
  next
    case up
    then have "round_half_even a b = q + 1"
      by (simp add: round_half_even_def Let_def q_def r_def)
    moreover have "1 / 2 \<le> real r / real b" using up assms by (simp add: field_simps)
    moreover have "real r / real b \<le> 1" using r assms by (simp add: field_simps)
    ultimately show ?thesis using d by simp
  next
    case tie
    then have "real r / real b = 1 / 2" using assms by (simp add: field_simps)
    moreover have "round_half_even a b = q \<or> round_half_even a b = q + 1"
      by (simp add: round_half_even_def Let_def q_def r_def)
    ultimately show ?thesis using d by auto
  qed
qed

lemma to_double_near:
  assumes "0 < fst f" and "0 < snd f"
  shows "\<bar>frac_val (to_double f) - frac_val f\<bar> \<le> frac_val f / 2 ^ 53 \<and> 0 < snd (to_double f)"
proof -
  define s where "s = 52 - floor_log2 f"
  define g where "g = scale2 f s"
  define m where "m = round_half_even (fst g) (snd g)"
  have g: "frac_val g = frac_val f * 2 powi s" "0 < snd g"
    using assms by (simp_all add: g_def frac_val_scale2 snd_scale2)
  have t: "to_double f = scale2 (m, 1) (- s)"
    using assms(1) by (simp add: to_double_def Let_def s_def g_def m_def)
  have v: "frac_val (to_double f) = real m * 2 powi (- s)"
    unfolding t by (simp add: frac_val_scale2) (simp add: frac_val_def)
  have p: "(0::real) < 2 powi (- s)" by simp
  have "\<bar>real m - frac_val g\<bar> \<le> 1 / 2"
    unfolding m_def frac_val_def using g(2) by (rule round_half_even_near)
  then have "\<bar>real m - frac_val g\<bar> * 2 powi (- s) \<le> 1 / 2 * 2 powi (- s)"
    using p by (simp add: mult_right_mono)
  moreover have "\<bar>real m - frac_val g\<bar> * 2 powi (- s)
      = \<bar>real m * 2 powi (- s) - frac_val f\<bar>"
  proof -
    have "frac_val g * 2 powi (- s) = frac_val f"
      by (simp add: g(1) power_int_minus)
    then have "real m * 2 powi (- s) - frac_val f = (real m - frac_val g) * 2 powi (- s)"
      by (simp add: algebra_simps)
    then show ?thesis by (simp add: abs_mult)
  qed
  moreover have "1 / 2 * 2 powi (- s) \<le> frac_val f / 2 ^ 53"
  proof -
    have "2 powi (floor_log2 f) \<le> frac_val f" using assms by (rule floor_log2_lower)
    moreover have "(2::real) powi (- s) = 2 powi (floor_log2 f) / 2 ^ 52"
      by (simp add: s_def power_int_diff power_int_minus field_simps)
    ultimately show ?thesis by (simp add: field_simps)
  qed
  ultimately have "\<bar>frac_val (to_double f) - frac_val f\<bar> \<le> frac_val f / 2 ^ 53"
    using v by simp
  moreover have "0 < snd (to_double f)" unfolding t by (simp add: snd_scale2)
  ultimately show ?thesis by simp
qed

lemma Math_round_near:
  assumes "0 < snd f"
  shows "\<bar>real_of_int (Math_round f) - frac_val f\<bar> \<le> 1 / 2"
proof -
  have "real_of_int (Math_round f) = real_of_int \<lfloor>frac_val f + 1 / 2\<rfloor>"
  proof -
    have "frac_val f + 1 / 2 = real (2 * fst f + snd f) / real (2 * snd f)"
      using assms by (simp add: frac_val_def field_simps)
    then have "\<lfloor>frac_val f + 1 / 2\<rfloor> = int ((2 * fst f + snd f) div (2 * snd f))"
      by (simp only: floor_divide_of_nat_eq)
    then show ?thesis by (simp add: Math_round_def)
  qed
  then show ?thesis by linarith
qed

text \<open>
  The percentage is the nearest integer to \<open>100 * c / n\<close> up to the two roundings of
  the double arithmetic, each of relative error at most \<open>2\<^sup>-\<^sup>5\<^sup>3\<close>.
\<close>

lemma percentage_near:
  assumes "0 < n"
  shows "\<bar>real_of_int (percentage c n) - 100 * real c / real n\<bar>
           \<le> 1 / 2 + (100 * real c / real n) / 2 ^ 51"
proof (cases "c = 0")
  case True
  then show ?thesis by (simp add: percentage_def to_double_def Math_round_def)
next
  case False
  define x where "x = real c / real n"
  define d where "d = to_double (c, n)"
  define y where "y = to_double (fst d * 100, snd d)"
  have x: "0 < x" using False assms by (simp add: x_def)
  have d: "\<bar>frac_val d - x\<bar> \<le> x / 2 ^ 53" "0 < snd d"
    using to_double_near [of "(c, n)"] False assms by (simp_all add: d_def x_def frac_val_def)
  have "x / 2 ^ 53 < x" using x by simp
  then have dpos: "0 < frac_val d" using d(1) by linarith
  then have fd: "0 < fst d" using d(2) by (simp add: frac_val_def zero_less_divide_iff)
  have v: "frac_val (fst d * 100, snd d) = 100 * frac_val d"
    by (simp add: frac_val_def)
  have y: "\<bar>frac_val y - 100 * frac_val d\<bar> \<le> 100 * frac_val d / 2 ^ 53" "0 < snd y"
    using to_double_near [of "(fst d * 100, snd d)"] fd d(2) v by (simp_all add: y_def)
  have p: "\<bar>real_of_int (Math_round y) - frac_val y\<bar> \<le> 1 / 2"
    using y(2) by (rule Math_round_near)
  have "frac_val d \<le> 2 * x"
  proof -
    have "x / 2 ^ 53 \<le> x" using x by simp
    then show ?thesis using d(1) by linarith
  qed
  then have "100 * frac_val d / 2 ^ 53 \<le> 200 * x / 2 ^ 53" by simp
  then have "\<bar>frac_val y - 100 * x\<bar> \<le> 200 * x / 2 ^ 53 + 100 * (x / 2 ^ 53)"
    using y(1) d(1) by linarith
  also have "\<dots> \<le> 100 * x / 2 ^ 51" using x by simp
  finally have "\<bar>real_of_int (Math_round y) - 100 * x\<bar> \<le> 1 / 2 + 100 * x / 2 ^ 51"
    using p by linarith
  then show ?thesis by (simp add: percentage_def Let_def d_def y_def x_def)
qed

section \<open>The handler and its report\<close>

lemma set_own_property_order [simp]: "set (own_property_order kvs) = set kvs"
  by (auto simp: own_property_order_def)

lemma length_own_property_order [simp]: "length (own_property_order kvs) = length kvs"
  by (simp add: own_property_order_def sum_length_filter_compl)

lemma own_property_order_example:
  "own_property_order [(''b'', 1::nat), (''10'', 2), (''9'', 3), (''01'', 4), (''a'', 5)]
     = [(''9'', 3), (''10'', 2), (''b'', 1), (''01'', 4), (''a'', 5)]"
  by (simp add: own_property_order_def is_array_index_def index_value_def)

lemma own_property_order_plain:
  "\<forall>kv \<in> set kvs. \<not> is_array_index (fst kv) \<Longrightarrow> own_property_order kvs = kvs"
  by (simp add: own_property_order_def filter_empty_conv)

lemma getSchema_nonempty:
  assumes "getSchema ps samples = Inr report" and "samples \<noteq> []"
  shows "\<exists>fieldInfo. forEach_analyzeObject [] samples = Inr fieldInfo \<and>
     report = JObj [(''collection'', JStr (collection ps)),
                    (''sampleSize'', JNum (int (length samples))),
                    (''fields'', JObj (map (\<lambda>(field, info). (field, field_view (length samples) info))
                                          (own_property_order fieldInfo))),
                    (''summary'',
                       JObj [(''totalFields'', JNum (int (length fieldInfo))),
                             (''totalDocuments'', JNum (int (length samples)))])]"
  using assms by (auto simp: getSchema_def Let_def split: sum.splits)

lemma report_fields_report [simp]:
  "report_fields (JObj [(''collection'', c), (''sampleSize'', n), (''fields'', JObj schema),
                        (''summary'', s)]) = schema"
  by (simp add: report_fields_def)

lemma forEach_observe_all:
  "forEach_analyzeObject fi samples = Inr fieldInfo \<Longrightarrow>
   observe_all fi (sample_visits samples) = Inr fieldInfo"
  by (simp add: forEach_visits split: if_splits)

lemma values_at_concat:
  "length (values_at p (concat xss)) = sum_list (map (\<lambda>xs. length (values_at p xs)) xss)"
  by (induction xss) (auto simp: values_at_def)

lemma values_at_distinct:
  "distinct (map fst vs) \<Longrightarrow> length (values_at p vs) \<le> Suc 0"
  by (induction vs) (auto simp: values_at_def filter_empty_conv rev_image_eqI)

lemma sum_list_le_length:
  "\<forall>x \<in> set xs. f x \<le> (1::nat) \<Longrightarrow> sum_list (map f xs) \<le> length xs"
  by (induction xs) auto

lemma count_le_samples:
  assumes "\<forall>doc \<in> set samples. distinct (map fst (doc_visits doc))"
  shows "length (values_at p (sample_visits samples)) \<le> length samples"
proof -
  have "sum_list (map (\<lambda>xs. length (values_at p xs)) (map doc_visits samples))
      \<le> length (map doc_visits samples)"
    using assms by (intro sum_list_le_length) (simp add: values_at_distinct)
  then show ?thesis by (simp add: sample_visits_def values_at_concat)
qed

lemma percentage_small [simp]:
  "percentage (Suc 0) (Suc 0) = 100"
  "percentage (Suc 0) 201 = 0"
  "percentage (Suc (Suc 0)) (Suc 0) = 200"
  by (simp_all add: double_simps)

lemma decimal_201: "decimal 201 = ''201''"
  by (simp add: decimal.simps [of 201] decimal.simps [of 20] decimal_digit)

lemma forEach_empty_docs: "forEach_analyzeObject fi (replicate k (JObj [])) = Inr fi"
  by (induction k) (simp_all add: analyzeObject_def)

lemma forEach_Cons_replicate:
  "forEach_analyzeObject fi (doc # replicate k (JObj [])) = analyzeObject fi doc []"
  by (simp add: forEach_empty_docs split: sum.splits)

lemma forEach_append:
  "forEach_analyzeObject fi (xs @ ys) =
     (case forEach_analyzeObject fi xs of
        Inl e \<Rightarrow> Inl e
      | Inr fi1 \<Rightarrow> forEach_analyzeObject fi1 ys)"
  by (induction xs arbitrary: fi) (auto split: sum.splits)

lemma forEach_null:
  "JNull \<in> set samples \<or> JUndefined \<in> set samples \<Longrightarrow>
   forEach_analyzeObject fi samples = Inl TypeError"
  by (auto simp: forEach_visits intro: bexI [of _ JNull] bexI [of _ JUndefined])

lemma type_tag_spec: "type_tag v = spec_type_tag v"
  by (cases v) (simp_all add: type_tag_def)

lemma values_at_member: "(p, v) \<in> set vs \<Longrightarrow> v \<in> set (values_at p vs)"
  by (force simp: values_at_def)

lemma forEach_entry:
  assumes "forEach_analyzeObject [] samples = Inr fieldInfo"
  shows "map_of fieldInfo p =
     (if values_at p (sample_visits samples) = [] then None
      else Some (foldl bump empty_info (values_at p (sample_visits samples))))"
  using observe_all_empty [OF forEach_observe_all [OF assms]] .

lemma forEach_distinct:
  "forEach_analyzeObject [] samples = Inr fieldInfo \<Longrightarrow> distinct (map fst fieldInfo)"
  using observe_all_distinct [OF forEach_observe_all] by fastforce

lemma forEach_keys:
  "forEach_analyzeObject [] samples = Inr fieldInfo \<Longrightarrow>
   fst ` set fieldInfo = fst ` set (sample_visits samples)"
  using observe_all_keys [OF forEach_observe_all] .




lemma size_entry: "(key, v) \<in> set kvs \<Longrightarrow> size v < size (JObj kvs)"
  by (induction kvs) auto

lemma size_item: "v \<in> set xs \<Longrightarrow> size v < size (JArr xs)"
  by (induction xs) auto

lemma call_descends:
  assumes "analyzeObject_calls (obj, prefix) (v, p)"
  shows "type_tag v = ''object'' \<and> size v < size obj"
proof -
  obtain kvs key where e: "Object_entries obj = Inr kvs" and k: "(key, v) \<in> set kvs"
    and t: "type_tag v = ''object''"
    using assms by (auto simp: analyzeObject_calls_def list_ex_iff split: sum.splits)
  have "size v < size obj"
  proof (cases obj)
    case (JObj kvs')
    then show ?thesis using e k size_entry [of key v kvs'] by simp
  next
    case (JArr xs)
    then have "v \<in> set xs" using e k by (auto dest!: set_zip_rightD)
    then show ?thesis using JArr size_item [of v xs] by simp
  next
    case (JStr s)
    then have "\<exists>c. v = JStr [c]" using e k by (auto dest!: set_zip_rightD)
    then show ?thesis using t by (auto simp: type_tag_def)
  qed (use e k in auto)
  then show ?thesis using t by simp
qed

lemma observe_fails_iff:
  "fst ` set fi \<inter> set object_prototype_keys = {} \<Longrightarrow>
   observe fi p v = Inl TypeError \<longleftrightarrow> p \<in> set object_prototype_keys"
  by (auto simp: observe_def map_of_eq_None_iff split: option.splits dest!: map_of_SomeD)

lemma observe_keeps_keys:
  assumes "observe fi p v = Inr fi1" and "fst ` set fi \<inter> set object_prototype_keys = {}"
  shows "fst ` set fi1 \<inter> set object_prototype_keys = {}"
proof -
  obtain i where "fi1 = AList.update p i fi"
    using assms(1) by (auto simp: observe_def split: option.splits if_splits)
  then have k: "fst ` set fi1 = {p} \<union> fst ` set fi" by (simp add: dom_update)
  have "p \<notin> set object_prototype_keys"
    using observe_fails_iff [OF assms(2), of p v] assms(1) by simp
  then show ?thesis using k assms(2) by auto
qed

lemma observe_all_fails_iff:
  "fst ` set fi \<inter> set object_prototype_keys = {} \<Longrightarrow>
   observe_all fi vs = Inl TypeError \<longleftrightarrow> (\<exists>pv \<in> set vs. fst pv \<in> set object_prototype_keys)"
proof (induction vs arbitrary: fi)
  case Nil
  then show ?case by simp
next
  case (Cons pv vs)
  show ?case
  proof (cases "observe fi (fst pv) (snd pv)")
    case (Inl e)
    then show ?thesis using observe_fails_iff [OF Cons.prems, of "fst pv" "snd pv"] by simp
  next
    case (Inr fi1)
    have "fst pv \<notin> set object_prototype_keys"
      using observe_fails_iff [OF Cons.prems, of "fst pv" "snd pv"] Inr by simp
    then show ?thesis
      using Cons.IH [OF observe_keeps_keys [OF Inr Cons.prems]] Inr by simp
  qed
qed

text \<open>
  When the run over the samples ends with an exception: a document is \<^verbatim>\<open>null\<close> or
  \<^verbatim>\<open>undefined\<close>, or an observed path is a name of \<^verbatim>\<open>Object.prototype\<close>.
\<close>

lemma forEach_fails_iff:
  "forEach_analyzeObject [] samples = Inl TypeError \<longleftrightarrow>
     JNull \<in> set samples \<or> JUndefined \<in> set samples \<or>
     (\<exists>pv \<in> set (sample_visits samples). fst pv \<in> set object_prototype_keys)"
proof -
  have "(\<exists>d \<in> set samples. Object_entries d = Inl TypeError)
      \<longleftrightarrow> JNull \<in> set samples \<or> JUndefined \<in> set samples"
  proof
    assume "\<exists>d \<in> set samples. Object_entries d = Inl TypeError"
    then obtain d where d: "d \<in> set samples" "Object_entries d = Inl TypeError" by blast
    have "d = JNull \<or> d = JUndefined" using d(2) by (cases d) simp_all
    with d show "JNull \<in> set samples \<or> JUndefined \<in> set samples" by auto
  next
    assume "JNull \<in> set samples \<or> JUndefined \<in> set samples"
    then show "\<exists>d \<in> set samples. Object_entries d = Inl TypeError"
      by (auto intro: bexI [of _ JNull] bexI [of _ JUndefined])
  qed
  then show ?thesis
    using observe_all_fails_iff [of "[]" "sample_visits samples"]
    by (auto simp: forEach_visits)
qed

section \<open>The report and the field paths of the specification\<close>

lemma key_paths_object:
  "key_paths ((key, JObj kvs') # rest) =
     [key] # map ((#) key) (key_paths kvs') @ key_paths rest"
  by simp

lemma key_paths_leaf:
  "type_tag value \<noteq> ''object'' \<Longrightarrow> key_paths ((key, value) # rest) = [key] # key_paths rest"
  by (cases "value") simp_all

declare key_paths.simps(2) [simp del]

lemma key_paths_nonempty: "ks \<in> set (key_paths kvs) \<Longrightarrow> ks \<noteq> []"
  by (induction kvs "[] :: string" arbitrary: ks rule: visits_cases)
     (auto simp: key_paths_object key_paths_leaf)

lemma dotted_Cons: "ks \<noteq> [] \<Longrightarrow> dotted (key # ks) = key @ ''.'' @ dotted ks"
  by (cases ks) simp_all

lemma visits_under_prefix:
  "prefix \<noteq> [] \<Longrightarrow>
   map fst (visits kvs prefix) = map (\<lambda>ks. prefix @ ''.'' @ dotted ks) (key_paths kvs)"
proof (induction kvs prefix rule: visits_cases)
  case (Nil prefix)
  then show ?case by simp
next
  case (object key kvs' rest prefix)
  have p: "fieldPath_of prefix key = prefix @ ''.'' @ key"
    using object.prems by (simp add: fieldPath_of_def)
  have "map fst (visits kvs' (fieldPath_of prefix key))
      = map (\<lambda>ks. prefix @ ''.'' @ dotted (key # ks)) (key_paths kvs')"
    using object.IH(1) by (simp add: p dotted_Cons key_paths_nonempty cong: map_cong)
  then show ?case
    using object.IH(2) object.prems by (simp add: visits_object key_paths_object p comp_def)
next
  case (leaf key "value" rest prefix)
  then show ?case by (simp add: visits_leaf key_paths_leaf fieldPath_of_def)
qed

lemma visits_top_level:
  "\<forall>kv \<in> set kvs. fst kv \<noteq> [] \<Longrightarrow> map fst (visits kvs []) = map dotted (key_paths kvs)"
proof (induction kvs)
  case Nil
  then show ?case by simp
next
  case (Cons kv kvs)
  obtain key "value" where kv: "kv = (key, value)" by (cases kv)
  have k: "key \<noteq> []" using Cons.prems kv by simp
  have r: "map fst (visits kvs []) = map dotted (key_paths kvs)"
    using Cons by simp
  show ?case
  proof (cases "type_tag value = ''object''")
    case True
    then obtain kvs' where v: "value = JObj kvs'" using object_tag by blast
    have "map fst (visits kvs' key) = map (\<lambda>ks. dotted (key # ks)) (key_paths kvs')"
      using visits_under_prefix [OF k, of kvs']
      by (simp add: dotted_Cons key_paths_nonempty cong: map_cong)
    then show ?thesis
      using r by (simp add: kv v visits_object key_paths_object fieldPath_of_def comp_def)
  next
    case False
    then show ?thesis using r by (simp add: kv visits_leaf key_paths_leaf fieldPath_of_def)
  qed
qed

lemma sample_visits_spec:
  assumes "\<forall>kvs \<in> set docs. \<forall>kv \<in> set kvs. fst kv \<noteq> []"
  shows "fst ` set (sample_visits (map JObj docs)) = (\<Union>kvs \<in> set docs. spec_field_paths kvs)"
  using assms
proof (induction docs)
  case Nil
  then show ?case by (simp add: sample_visits_def)
next
  case (Cons kvs docs)
  have "fst ` set (visits kvs []) = spec_field_paths kvs"
    using visits_top_level [of kvs] Cons.prems
    by (metis list.set_intros(1) set_map spec_field_paths_def)
  then show ?case
    using Cons by (simp add: sample_visits_def doc_visits_def image_Un)
qed

text \<open>
  Where the report agrees with the specification's field paths: the documents are
  objects, no top-level key is the empty string, and the run ends with a report.
\<close>

lemma report_paths_spec:
  assumes "getSchema ps (map JObj docs) = Inr report"
    and "\<forall>kvs \<in> set docs. \<forall>kv \<in> set kvs. fst kv \<noteq> []"
  shows "fst ` set (report_fields report) = (\<Union>kvs \<in> set docs. spec_field_paths kvs)"
proof (cases "docs = []")
  case True
  then show ?thesis using assms(1) by (auto simp: getSchema_def report_fields_def)
next
  case False
  then obtain fieldInfo where f: "forEach_analyzeObject [] (map JObj docs) = Inr fieldInfo"
    and r: "report_fields report =
              map (\<lambda>(field, info). (field, field_view (length (map JObj docs)) info))
                  (own_property_order fieldInfo)"
    using getSchema_nonempty [OF assms(1)] by auto
  have "map fst (report_fields report) = map fst (own_property_order fieldInfo)"
    unfolding r by (simp add: case_prod_unfold comp_def)
  then have "fst ` set (report_fields report) = fst ` set fieldInfo"
    by (metis set_map set_own_property_order)
  then show ?thesis using forEach_keys [OF f] sample_visits_spec [OF assms(2)] by simp
qed

text \<open>
  Line 523 tests the prefix for being empty, so under an empty top-level key the
  nested key \<^verbatim>\<open>b\<close> is reported as \<^verbatim>\<open>b\<close>, where the dotted path of the specification
  is \<^verbatim>\<open>.b\<close>.
\<close>

lemma empty_key_paths:
  "map fst (visits [([], JObj [(''b'', JNum 1)])] []) = [[], ''b''] \<and>
   map dotted (key_paths [([], JObj [(''b'', JNum 1)])]) = [[], ''.b'']"
  by (simp add: visits_object visits_leaf key_paths_object key_paths_leaf type_tag_def
                fieldPath_of_def)

text \<open>A run that ends with \<^verbatim>\<open>fieldInfo\<close> has added the tag of every observed value
  to the type set of its path.\<close>

lemma type_tag_added:
  assumes "forEach_analyzeObject [] samples = Inr fieldInfo"
    and "(path, v) \<in> set (sample_visits samples)"
  shows "\<exists>info. map_of fieldInfo path = Some info \<and> type_tag v \<in> set (types info)"
proof -
  have m: "v \<in> set (values_at path (sample_visits samples))"
    using assms(2) by (simp add: values_at_member)
  then have "map_of fieldInfo path =
      Some (foldl bump empty_info (values_at path (sample_visits samples)))"
    using forEach_entry [OF assms(1), of path] by auto
  moreover have "type_tag v
      \<in> set (types (foldl bump empty_info (values_at path (sample_visits samples))))"
    using m by (simp add: types_foldl_bump)
  ultimately show ?thesis by blast
qed

section \<open>Claims\<close>

text \<open>
  C2. The end-to-end example of the specification: the two documents
  \<^verbatim>\<open>{"_id":"1","name":"Al","tags":["x"]}\<close> and \<^verbatim>\<open>{"_id":"2","name":42}\<close>, sampled with
  requested size 2, give the fields \<^verbatim>\<open>_id\<close> (string, 2/2, 100), \<^verbatim>\<open>name\<close> (string and
  number, 2/2, 100) and \<^verbatim>\<open>tags\<close> (array, 1/2, 50).
\<close>

theorem e2e_example:
  "getSchema \<lparr>collection = c, sampleSize = 2\<rparr>
     [JObj [(''_id'', JStr ''1''), (''name'', JStr ''Al''), (''tags'', JArr [JStr ''x''])],
      JObj [(''_id'', JStr ''2''), (''name'', JNum 42)]]
   = Inr (JObj
      [(''collection'', JStr c),
       (''sampleSize'', JNum 2),
       (''fields'', JObj
          [(''_id'', JObj [(''types'', JArr [JStr ''string'']),
                           (''examples'', JArr [JStr ''1'', JStr ''2'']),
                           (''frequency'', JStr ''2/2''),
                           (''percentage'', JNum 100)]),
           (''name'', JObj [(''types'', JArr [JStr ''string'', JStr ''number'']),
                            (''examples'', JArr [JStr ''Al'', JNum 42]),
                            (''frequency'', JStr ''2/2''),
                            (''percentage'', JNum 100)]),
           (''tags'', JObj [(''types'', JArr [JStr ''array'']),
                            (''examples'', JArr [JArr [JStr ''x'']]),
                            (''frequency'', JStr ''1/2''),
                            (''percentage'', JNum 50)])]),
       (''summary'', JObj [(''totalFields'', JNum 3), (''totalDocuments'', JNum 2)])])"
  by (simp add: analyze_simps decimal_digit)

text \<open>
  C1, as amended. For a non-empty sample, every field of the report is the view of a
  record whose count is positive, and whose percentage is not negative. When no
  document yields the same path string twice, the count is at most the number of
  sampled documents and the percentage at most 100. (The percentage is the
  double-precision \<^verbatim>\<open>Math.round((count / n) * 100)\<close>; it is 0 for a count below half a
  percent of the sample.)
\<close>

theorem frequency_bound:
  assumes "getSchema ps samples = Inr report" and "samples \<noteq> []"
    and "(field, view) \<in> set (report_fields report)"
  shows "\<exists>info. view = field_view (length samples) info \<and> 0 < count info \<and>
     0 \<le> percentage (count info) (length samples) \<and>
     ((\<forall>doc \<in> set samples. distinct (map fst (doc_visits doc))) \<longrightarrow>
        count info \<le> length samples \<and> percentage (count info) (length samples) \<le> 100)"
proof -
  obtain fieldInfo where f: "forEach_analyzeObject [] samples = Inr fieldInfo"
    and r: "report_fields report =
              map (\<lambda>(field, info). (field, field_view (length samples) info))
                  (own_property_order fieldInfo)"
    using getSchema_nonempty [OF assms(1,2)] by auto
  obtain info where i: "(field, info) \<in> set fieldInfo"
    and v: "view = field_view (length samples) info"
    using assms(3) r by auto
  have o: "observe_all [] (sample_visits samples) = Inr fieldInfo"
    using f by (rule forEach_observe_all)
  have e: "values_at field (sample_visits samples) \<noteq> []"
    and c: "info = foldl bump empty_info (values_at field (sample_visits samples))"
    using observe_all_entry [OF o i] by auto
  have cnt: "count info = length (values_at field (sample_visits samples))"
    using c by (simp add: count_foldl_bump empty_info_def)
  have pos: "0 < count info" using cnt e by simp
  have "count info \<le> length samples \<and> percentage (count info) (length samples) \<le> 100"
    if "\<forall>doc \<in> set samples. distinct (map fst (doc_visits doc))"
  proof -
    have "count info \<le> length samples" using cnt count_le_samples [OF that] by simp
    then show ?thesis using pos percentage_le_100 by simp
  qed
  then show ?thesis using v pos percentage_nonneg by blast
qed

text \<open>The bound at the one-document sample \<^verbatim>\<open>[{"a": 1}]\<close>.\<close>

theorem frequency_bound_witness:
  "\<exists>info.
     JObj [(''types'', JArr [JStr ''number'']), (''examples'', JArr [JNum 1]),
           (''frequency'', JStr ''1/1''), (''percentage'', JNum 100)]
       = field_view (length [JObj [(''a'', JNum 1)]]) info \<and>
     0 < count info \<and>
     0 \<le> percentage (count info) (length [JObj [(''a'', JNum 1)]]) \<and>
     count info \<le> length [JObj [(''a'', JNum 1)]] \<and>
     percentage (count info) (length [JObj [(''a'', JNum 1)]]) \<le> 100"
proof -
  let ?ps = "\<lparr>collection = ''c'', sampleSize = 100\<rparr>"
  let ?view = "JObj [(''types'', JArr [JStr ''number'']), (''examples'', JArr [JNum 1]),
                     (''frequency'', JStr ''1/1''), (''percentage'', JNum 100)]"
  let ?report = "JObj [(''collection'', JStr ''c''), (''sampleSize'', JNum 1),
                       (''fields'', JObj [(''a'', ?view)]),
                       (''summary'', JObj [(''totalFields'', JNum 1), (''totalDocuments'', JNum 1)])]"
  have h1: "getSchema ?ps [JObj [(''a'', JNum 1)]] = Inr ?report"
    by (simp add: analyze_simps decimal_digit)
  have h2: "[JObj [(''a'', JNum 1)]] \<noteq> []" by simp
  have h3: "(''a'', ?view) \<in> set (report_fields ?report)" by simp
  have h4: "\<forall>doc \<in> set [JObj [(''a'', JNum 1)]]. distinct (map fst (doc_visits doc))"
    by (simp add: doc_visits_def visits_leaf type_tag_def)
  from frequency_bound [OF h1 h2 h3] h4 show ?thesis by blast
qed

text \<open>
  C1 as stated fails. The document \<^verbatim>\<open>{"a": {"b": 1}, "a.b": 2}\<close> yields the path
  \<^verbatim>\<open>a.b\<close> twice: its count is 2 in a sample of 1 and its percentage 200. A field seen
  in one document of 201 has percentage 0.
\<close>

theorem frequency_bound_counterexample:
  "getSchema \<lparr>collection = ''c'', sampleSize = 100\<rparr>
     [JObj [(''a'', JObj [(''b'', JNum 1)]), (''a.b'', JNum 2)]]
   = Inr (JObj
      [(''collection'', JStr ''c''),
       (''sampleSize'', JNum 1),
       (''fields'', JObj
          [(''a'', JObj [(''types'', JArr [JStr ''object'']),
                         (''examples'', JArr [JObj [(''b'', JNum 1)]]),
                         (''frequency'', JStr ''1/1''),
                         (''percentage'', JNum 100)]),
           (''a.b'', JObj [(''types'', JArr [JStr ''number'']),
                           (''examples'', JArr [JNum 1, JNum 2]),
                           (''frequency'', JStr ''2/1''),
                           (''percentage'', JNum 200)])]),
       (''summary'', JObj [(''totalFields'', JNum 2), (''totalDocuments'', JNum 1)])])
   \<and>
   getSchema \<lparr>collection = ''c'', sampleSize = 300\<rparr>
     (JObj [(''a'', JNum 1)] # replicate 200 (JObj []))
   = Inr (JObj
      [(''collection'', JStr ''c''),
       (''sampleSize'', JNum 201),
       (''fields'', JObj
          [(''a'', JObj [(''types'', JArr [JStr ''number'']),
                         (''examples'', JArr [JNum 1]),
                         (''frequency'', JStr ''1/201''),
                         (''percentage'', JNum 0)])]),
       (''summary'', JObj [(''totalFields'', JNum 1), (''totalDocuments'', JNum 201)])])"
proof (intro conjI)
  show "getSchema \<lparr>collection = ''c'', sampleSize = 100\<rparr>
     [JObj [(''a'', JObj [(''b'', JNum 1)]), (''a.b'', JNum 2)]]
   = Inr (JObj
      [(''collection'', JStr ''c''),
       (''sampleSize'', JNum 1),
       (''fields'', JObj
          [(''a'', JObj [(''types'', JArr [JStr ''object'']),
                         (''examples'', JArr [JObj [(''b'', JNum 1)]]),
                         (''frequency'', JStr ''1/1''),
                         (''percentage'', JNum 100)]),
           (''a.b'', JObj [(''types'', JArr [JStr ''number'']),
                           (''examples'', JArr [JNum 1, JNum 2]),
                           (''frequency'', JStr ''2/1''),
                           (''percentage'', JNum 200)])]),
       (''summary'', JObj [(''totalFields'', JNum 2), (''totalDocuments'', JNum 1)])])"
    by (simp add: analyze_simps decimal_digit)
next
  have "forEach_analyzeObject [] (JObj [(''a'', JNum 1)] # replicate 200 (JObj []))
      = Inr [(''a'', \<lparr>types = [''number''], examples = [JNum 1], count = 1\<rparr>)]"
    unfolding forEach_Cons_replicate by (simp add: analyze_simps)
  then show "getSchema \<lparr>collection = ''c'', sampleSize = 300\<rparr>
     (JObj [(''a'', JNum 1)] # replicate 200 (JObj []))
   = Inr (JObj
      [(''collection'', JStr ''c''),
       (''sampleSize'', JNum 201),
       (''fields'', JObj
          [(''a'', JObj [(''types'', JArr [JStr ''number'']),
                         (''examples'', JArr [JNum 1]),
                         (''frequency'', JStr ''1/201''),
                         (''percentage'', JNum 0)])]),
       (''summary'', JObj [(''totalFields'', JNum 1), (''totalDocuments'', JNum 201)])])"
    by (simp add: getSchema_def field_view_def decimal_digit decimal_201
                  own_property_order_def is_array_index_def
             del: forEach_analyzeObject.simps)
qed

text \<open>
  C3, as amended. For every requested sample size, the handler answers an empty
  sample with the object \<^verbatim>\<open>{message: 'No documents found in collection', fields: {}}\<close>:
  an explicit message and an empty field mapping. The object has no \<^verbatim>\<open>sampleSize\<close>
  entry, and no frequency or percentage is computed for it.
\<close>

theorem empty_sample:
  "getSchema ps [] =
     Inr (JObj [(''message'', JStr ''No documents found in collection''),
                (''fields'', JObj [])])"
  by (simp add: getSchema_def)

text \<open>C3 as stated fails: the report for an empty sample has no \<^verbatim>\<open>sampleSize\<close> of 0.\<close>

theorem empty_sample_counterexample:
  "\<not> (\<exists>report. getSchema \<lparr>collection = ''users'', sampleSize = 100\<rparr> [] = Inr report \<and>
         own_property report ''sampleSize'' = Some (JNum 0))"
  by (simp add: getSchema_def)

text \<open>
  C4, as amended. A sampled record that is a number or a boolean has no entries: it
  leaves \<^verbatim>\<open>fieldInfo\<close> as it is and the loop goes on with the remaining documents. A
  record that is \<^verbatim>\<open>null\<close> or \<^verbatim>\<open>undefined\<close> is not skipped: \<^verbatim>\<open>Object.entries\<close> throws a
  \<^verbatim>\<open>TypeError\<close>, which ends the whole run without a report.
\<close>

theorem malformed_document:
  "forEach_analyzeObject fi (xs @ JNum x # ys) = forEach_analyzeObject fi (xs @ ys) \<and>
   forEach_analyzeObject fi (xs @ JBool b # ys) = forEach_analyzeObject fi (xs @ ys) \<and>
   (JNull \<in> set samples \<or> JUndefined \<in> set samples \<longrightarrow>
      getSchema ps samples = Inl TypeError)"
proof (intro conjI impI)
  show "forEach_analyzeObject fi (xs @ JNum x # ys) = forEach_analyzeObject fi (xs @ ys)"
    by (simp add: forEach_append analyzeObject_def split: sum.splits)
  show "forEach_analyzeObject fi (xs @ JBool b # ys) = forEach_analyzeObject fi (xs @ ys)"
    by (simp add: forEach_append analyzeObject_def split: sum.splits)
  assume n: "JNull \<in> set samples \<or> JUndefined \<in> set samples"
  then have "samples \<noteq> []" by auto
  then show "getSchema ps samples = Inl TypeError"
    using forEach_null [OF n] by (simp add: getSchema_def)
qed

text \<open>A number between two documents, and a sample that holds \<^verbatim>\<open>null\<close>.\<close>

theorem malformed_document_witness:
  "forEach_analyzeObject [] ([JObj [(''a'', JNum 1)]] @ JNum 7 # [JObj [(''b'', JNum 2)]])
     = forEach_analyzeObject [] ([JObj [(''a'', JNum 1)]] @ [JObj [(''b'', JNum 2)]]) \<and>
   JNull \<in> set [JObj [(''a'', JNum 1)], JNull] \<and>
   getSchema \<lparr>collection = ''c'', sampleSize = 100\<rparr> [JObj [(''a'', JNum 1)], JNull]
     = Inl TypeError"
  using malformed_document [of "[]" "[JObj [(''a'', JNum 1)]]" 7 "[JObj [(''b'', JNum 2)]]"
      True "[JObj [(''a'', JNum 1)], JNull]" "\<lparr>collection = ''c'', sampleSize = 100\<rparr>"]
  by simp

text \<open>C4 as stated fails: a \<^verbatim>\<open>null\<close> record before a well-formed document ends the run.\<close>

theorem malformed_document_counterexample:
  "getSchema \<lparr>collection = ''c'', sampleSize = 100\<rparr> [JNull, JObj [(''a'', JNum 1)]]
     = Inl TypeError"
  by (simp add: getSchema_def analyzeObject_def)

text \<open>
  C5. The document \<^verbatim>\<open>{"constructor": 1}\<close>: the value 1 is encountered at the path
  \<^verbatim>\<open>constructor\<close> and its tag \<^verbatim>\<open>number\<close> is computed, but \<^verbatim>\<open>fieldInfo["constructor"]\<close>
  finds the inherited \<^verbatim>\<open>Object\<close> function, no record is created for the path, and line
  537 throws a \<^verbatim>\<open>TypeError\<close>: the tag is added to no type set and the run yields no
  report.
\<close>

theorem type_tag_not_added:
  "(''constructor'', JNum 1) \<in> set (sample_visits [JObj [(''constructor'', JNum 1)]]) \<and>
   type_tag (JNum 1) = ''number'' \<and>
   observe [] ''constructor'' (JNum 1) = Inl TypeError \<and>
   forEach_analyzeObject [] [JObj [(''constructor'', JNum 1)]] = Inl TypeError \<and>
   getSchema ps [JObj [(''constructor'', JNum 1)]] = Inl TypeError"
  by (simp add: sample_visits_def doc_visits_def visits_leaf analyze_simps)

text \<open>
  C6. The document \<^verbatim>\<open>{"constructor": 1}\<close> again: \<^verbatim>\<open>constructor\<close> is a key path of the
  document, the only one, and the handler throws instead of reporting it.
\<close>

theorem constructor_path_not_reported:
  "spec_field_paths [(''constructor'', JNum 1)] = {''constructor''} \<and>
   getSchema \<lparr>collection = ''users'', sampleSize = 100\<rparr> [JObj [(''constructor'', JNum 1)]]
     = Inl TypeError"
  by (simp add: spec_field_paths_def key_paths_leaf type_tag_def getSchema_def
                analyzeObject_def observe_def object_prototype_keys_def fieldPath_of_def)



text \<open>
  C8, as amended. For a non-empty sample for which the handler returns a report,
  \<^verbatim>\<open>sampleSize\<close> and \<^verbatim>\<open>totalDocuments\<close> are the number of documents sampled and
  \<^verbatim>\<open>totalFields\<close> is the number of distinct field paths. The fields are the views of
  the records in the order of \<^verbatim>\<open>Object.entries(fieldInfo)\<close>, each with the frequency
  \<^verbatim>\<open>count/samples.length\<close> and the percentage of the same two numbers, which is the
  nearest integer to \<open>100 * count / samples.length\<close> up to the rounding of the double
  arithmetic. The requested sample size has no part in the report.
\<close>

theorem report_aggregation:
  assumes "getSchema ps samples = Inr report" and "samples \<noteq> []"
  shows "\<exists>fieldInfo.
     forEach_analyzeObject [] samples = Inr fieldInfo \<and>
     own_property report ''sampleSize'' = Some (JNum (int (length samples))) \<and>
     own_property report ''summary'' =
       Some (JObj [(''totalFields'', JNum (int (card (fst ` set (sample_visits samples))))),
                   (''totalDocuments'', JNum (int (length samples)))]) \<and>
     report_fields report =
       map (\<lambda>(field, info).
              (field,
               JObj [(''types'', JArr (map JStr (types info))),
                     (''examples'', JArr (examples info)),
                     (''frequency'',
                        JStr (decimal (count info) @ ''/'' @ decimal (length samples))),
                     (''percentage'', JNum (percentage (count info) (length samples)))]))
           (own_property_order fieldInfo) \<and>
     (\<forall>c. \<bar>real_of_int (percentage c (length samples))
              - 100 * real c / real (length samples)\<bar>
            \<le> 1 / 2 + (100 * real c / real (length samples)) / 2 ^ 51) \<and>
     getSchema (ps\<lparr>sampleSize := N\<rparr>) samples = getSchema ps samples"
proof -
  obtain fieldInfo where f: "forEach_analyzeObject [] samples = Inr fieldInfo"
    and r: "report = JObj [(''collection'', JStr (collection ps)),
                    (''sampleSize'', JNum (int (length samples))),
                    (''fields'', JObj (map (\<lambda>(field, info). (field, field_view (length samples) info))
                                          (own_property_order fieldInfo))),
                    (''summary'',
                       JObj [(''totalFields'', JNum (int (length fieldInfo))),
                             (''totalDocuments'', JNum (int (length samples)))])]"
    using getSchema_nonempty [OF assms] by blast
  have "length fieldInfo = card (fst ` set fieldInfo)"
    using forEach_distinct [OF f] by (metis distinct_card length_map set_map)
  then have l: "length fieldInfo = card (fst ` set (sample_visits samples))"
    using forEach_keys [OF f] by simp
  have n: "\<forall>c. \<bar>real_of_int (percentage c (length samples))
              - 100 * real c / real (length samples)\<bar>
            \<le> 1 / 2 + (100 * real c / real (length samples)) / 2 ^ 51"
    using percentage_near [of "length samples"] assms(2) by simp
  have g: "getSchema (ps\<lparr>sampleSize := N\<rparr>) samples = getSchema ps samples"
    by (simp add: getSchema_def split: sum.splits)
  have v: "report_fields report =
       map (\<lambda>(field, info).
              (field,
               JObj [(''types'', JArr (map JStr (types info))),
                     (''examples'', JArr (examples info)),
                     (''frequency'',
                        JStr (decimal (count info) @ ''/'' @ decimal (length samples))),
                     (''percentage'', JNum (percentage (count info) (length samples)))]))
           (own_property_order fieldInfo)"
    unfolding r by (simp add: field_view_def)
  have s: "own_property report ''sampleSize'' = Some (JNum (int (length samples)))"
    and t: "own_property report ''summary'' =
       Some (JObj [(''totalFields'', JNum (int (card (fst ` set (sample_visits samples))))),
                   (''totalDocuments'', JNum (int (length samples)))])"
    unfolding r using l by simp_all
  show ?thesis using f s t v n g by blast
qed

text \<open>
  The sample \<^verbatim>\<open>[{"b": 1}, {"1": 2}]\<close>: two documents, two paths, each seen once, and
  the path \<^verbatim>\<open>1\<close>, an array index, listed before \<^verbatim>\<open>b\<close>.
\<close>

theorem report_aggregation_witness:
  "getSchema \<lparr>collection = ''c'', sampleSize = 100\<rparr>
     [JObj [(''b'', JNum 1)], JObj [(''1'', JNum 2)]]
   = Inr (JObj
      [(''collection'', JStr ''c''),
       (''sampleSize'', JNum 2),
       (''fields'', JObj
          [(''1'', JObj [(''types'', JArr [JStr ''number'']),
                         (''examples'', JArr [JNum 2]),
                         (''frequency'', JStr ''1/2''),
                         (''percentage'', JNum 50)]),
           (''b'', JObj [(''types'', JArr [JStr ''number'']),
                         (''examples'', JArr [JNum 1]),
                         (''frequency'', JStr ''1/2''),
                         (''percentage'', JNum 50)])]),
       (''summary'', JObj [(''totalFields'', JNum 2), (''totalDocuments'', JNum 2)])]) \<and>
   card (fst ` set (sample_visits [JObj [(''b'', JNum 1)], JObj [(''1'', JNum 2)]])) = 2 \<and>
   \<bar>real_of_int (percentage 1 (length [JObj [(''b'', JNum 1)], JObj [(''1'', JNum 2)]]))
      - 100 * real 1 / real (length [JObj [(''b'', JNum 1)], JObj [(''1'', JNum 2)]])\<bar>
    \<le> 1 / 2 + (100 * real 1 / real (length [JObj [(''b'', JNum 1)], JObj [(''1'', JNum 2)]]))
                 / 2 ^ 51"
proof -
  let ?samples = "[JObj [(''b'', JNum 1)], JObj [(''1'', JNum 2)]]"
  let ?report = "JObj
      [(''collection'', JStr ''c''),
       (''sampleSize'', JNum 2),
       (''fields'', JObj
          [(''1'', JObj [(''types'', JArr [JStr ''number'']),
                         (''examples'', JArr [JNum 2]),
                         (''frequency'', JStr ''1/2''),
                         (''percentage'', JNum 50)]),
           (''b'', JObj [(''types'', JArr [JStr ''number'']),
                         (''examples'', JArr [JNum 1]),
                         (''frequency'', JStr ''1/2''),
                         (''percentage'', JNum 50)])]),
       (''summary'', JObj [(''totalFields'', JNum 2), (''totalDocuments'', JNum 2)])]"
  have h1: "getSchema \<lparr>collection = ''c'', sampleSize = 100\<rparr> ?samples = Inr ?report"
    by (simp add: analyze_simps decimal_digit index_value_def)
  have h2: "?samples \<noteq> []" by simp
  from report_aggregation [OF h1 h2] obtain fieldInfo where
    t: "own_property ?report ''summary'' =
       Some (JObj [(''totalFields'', JNum (int (card (fst ` set (sample_visits ?samples))))),
                   (''totalDocuments'', JNum (int (length ?samples)))])"
    and n: "\<forall>c. \<bar>real_of_int (percentage c (length ?samples))
              - 100 * real c / real (length ?samples)\<bar>
            \<le> 1 / 2 + (100 * real c / real (length ?samples)) / 2 ^ 51"
    by blast
  have "card (fst ` set (sample_visits ?samples)) = 2" using t by simp
  then show ?thesis using h1 n by blast
qed

text \<open>
  C8 as stated fails at the empty sample: the report has neither \<^verbatim>\<open>sampleSize\<close> nor
  \<^verbatim>\<open>summary\<close>.
\<close>

theorem report_aggregation_counterexample:
  "getSchema \<lparr>collection = ''users'', sampleSize = 100\<rparr> []
     = Inr (JObj [(''message'', JStr ''No documents found in collection''),
                  (''fields'', JObj [])]) \<and>
   own_property (JObj [(''message'', JStr ''No documents found in collection''),
                       (''fields'', JObj [])]) ''sampleSize'' = None \<and>
   own_property (JObj [(''message'', JStr ''No documents found in collection''),
                       (''fields'', JObj [])]) ''summary'' = None"
  by (simp add: getSchema_def)

text \<open>
  C10. \<^verbatim>\<open>analyzeObject\<close> recurses only into a value whose type tag is \<^verbatim>\<open>object\<close>: never
  into an array, \<^verbatim>\<open>null\<close>, a date, an ObjectId or a primitive value. The value is a
  strict part of the object the call was made on, so the relation of direct recursive
  calls is well-founded, and the fold returns: its result is that of the loop body run
  over the finite sequence of observations of the object.
\<close>

theorem analyzeObject_terminates:
  "wf {(callee, caller). analyzeObject_calls caller callee} \<and>
   (analyzeObject_calls (obj, prefix) (v, p) \<longrightarrow>
      type_tag v = ''object'' \<and> typeof v = ''object'' \<and> \<not> isArray v \<and> v \<noteq> JNull \<and>
      \<not> instanceof_Date v \<and> \<not> instanceof_ObjectId v \<and> size v < size obj) \<and>
   analyzeObject fieldInfo obj prefix =
     (case Object_entries obj of
        Inl e \<Rightarrow> Inl e
      | Inr kvs \<Rightarrow> observe_all fieldInfo (visits kvs prefix))"
proof -
  have "{(callee, caller). analyzeObject_calls caller callee} \<subseteq> measure (\<lambda>c. size (fst c))"
    using call_descends by auto
  then have w: "wf {(callee, caller). analyzeObject_calls caller callee}"
    by (rule wf_subset [OF wf_measure])
  have d: "type_tag v = ''object'' \<and> typeof v = ''object'' \<and> \<not> isArray v \<and> v \<noteq> JNull \<and>
      \<not> instanceof_Date v \<and> \<not> instanceof_ObjectId v \<and> size v < size obj"
    if c: "analyzeObject_calls (obj, prefix) (v, p)"
  proof -
    have t: "type_tag v = ''object''" and s: "size v < size obj"
      using call_descends [OF c] by simp_all
    obtain kvs where "v = JObj kvs" using object_tag [OF t] by blast
    then show ?thesis using s by simp
  qed
  have e: "analyzeObject fieldInfo obj prefix =
     (case Object_entries obj of
        Inl e \<Rightarrow> Inl e
      | Inr kvs \<Rightarrow> observe_all fieldInfo (visits kvs prefix))"
    by (simp add: analyzeObject_def analyzeEntries_visits split: sum.splits)
  show ?thesis using w d e by blast
qed

text \<open>The call on \<^verbatim>\<open>{"a": {}}\<close> recurses into the empty object at \<^verbatim>\<open>a\<close>.\<close>

theorem analyzeObject_terminates_witness:
  "analyzeObject_calls (JObj [(''a'', JObj [])], []) (JObj [], ''a'') \<and>
   type_tag (JObj []) = ''object'' \<and> \<not> isArray (JObj []) \<and>
   size (JObj []) < size (JObj [(''a'', JObj [])])"
proof -
  have c: "analyzeObject_calls (JObj [(''a'', JObj [])], []) (JObj [], ''a'')"
    by (simp add: analyzeObject_calls_def fieldPath_of_def)
  from analyzeObject_terminates [of "JObj [(''a'', JObj [])]" "[]" "JObj []" "''a''"] c
  show ?thesis by blast
qed

text \<open>
  C9. The filter \<^verbatim>\<open>{"user_id": {"$in": ["507f1f77bcf86cd799439011"], "$exists": true}}\<close>:
  under the key \<^verbatim>\<open>user_id\<close> the object is rebuilt with its \<^verbatim>\<open>$in\<close> entry only, and the
  \<^verbatim>\<open>$exists\<close> entry, which no rule converts, is lost.
\<close>

theorem convertToObjectIds_drops_entries:
  "convertToObjectIds isValid
     (JObj [(''user_id'', JObj [(''$in'', JArr [JStr ''507f1f77bcf86cd799439011'']),
                               (''$exists'', JBool True)])])
   = JObj [(''user_id'',
            JObj [(''$in'',
                   JArr [string_to_ObjectId isValid (JStr ''507f1f77bcf86cd799439011'')])])]"
  by (simp add: id_key_def endsWith_def converted_entries_def)

end
